theory Spec2Isabelle
  imports Complex_Main "HOL-Library.Log_Nat" "HOL-Library.Sublist"
begin

section \<open>Python numbers\<close>

text \<open>
  The splitter mixes Python ints (the timestamps of the bag, in nanoseconds) with
  Python floats (every offset is multiplied by the float literal \<open>1e9\<close>).
  An int is an unbounded integer. A float is an IEEE binary64 value, kept here as the
  rational it denotes; every float operation rounds the exact result to the nearest
  binary64 value, ties to even. The exponent range is bounded below (subnormals) but not
  above: infinities and NaN are not values of the model, which agrees with Python as long
  as no magnitude reaches \<open>2^1024\<close> (bag timestamps are 64-bit quantities).
\<close>

datatype pynum = PyInt int | PyFloat rat

text \<open>
  \<open>PyFloat x\<close> stands for a float when \<open>x\<close> is a binary64 value, that is when
  \<open>py_float x = x\<close> for the rounding \<open>py_float\<close> below.
\<close>

definition round_half_even :: "rat \<Rightarrow> int" where
  "round_half_even x =
     (let f = \<lfloor>x\<rfloor>; r = x - of_int f
      in if r < 1 / 2 then f else if 1 / 2 < r then f + 1 else if even f then f else f + 1)"

definition float_exponent :: "rat \<Rightarrow> int" where
  \<comment> \<open>\<open>\<lfloor>log\<^sub>2 \<bar>x\<bar>\<rfloor>\<close> for \<open>x \<noteq> 0\<close>\<close>
  "float_exponent x =
     (if 1 \<le> \<bar>x\<bar> then bitlen \<lfloor>\<bar>x\<bar>\<rfloor> - 1 else - bitlen (\<lceil>1 / \<bar>x\<bar>\<rceil> - 1))"

definition py_float :: "rat \<Rightarrow> rat" where
  \<comment> \<open>round to binary64: 53 significant bits, least exponent -1022\<close>
  "py_float x =
     (if x = 0 then 0
      else let e = max (float_exponent x) (- 1022); u = 2 powi (e - 52)
           in of_int (round_half_even (x / u)) * u)"

definition num_value :: "pynum \<Rightarrow> rat" where
  "num_value a = (case a of PyInt i \<Rightarrow> of_int i | PyFloat x \<Rightarrow> x)"

definition to_float :: "pynum \<Rightarrow> rat" where
  \<comment> \<open>the operand of a mixed operation: an int is converted to the nearest float\<close>
  "to_float a = (case a of PyInt i \<Rightarrow> py_float (of_int i) | PyFloat x \<Rightarrow> x)"

fun py_mul :: "pynum \<Rightarrow> pynum \<Rightarrow> pynum" where
  "py_mul (PyInt a) (PyInt b) = PyInt (a * b)"
| "py_mul a b = PyFloat (py_float (to_float a * to_float b))"

fun py_add :: "pynum \<Rightarrow> pynum \<Rightarrow> pynum" where
  "py_add (PyInt a) (PyInt b) = PyInt (a + b)"
| "py_add a b = PyFloat (py_float (to_float a + to_float b))"

definition py_less :: "pynum \<Rightarrow> pynum \<Rightarrow> bool" where
  \<comment> \<open>Python compares an int with a float by their exact values\<close>
  "py_less a b = (num_value a < num_value b)"

definition py_le :: "pynum \<Rightarrow> pynum \<Rightarrow> bool" where
  "py_le a b = (num_value a \<le> num_value b)"

definition py_index :: "'a list \<Rightarrow> nat \<Rightarrow> 'e \<Rightarrow> 'e + 'a" where
  \<comment> \<open>\<open>xs[i]\<close> for \<open>i \<ge> 0\<close>; out of range raises the given error\<close>
  "py_index xs i err = (if i < length xs then Inr (xs ! i) else Inl err)"

fun str_nat :: "nat \<Rightarrow> string" where
  "str_nat n =
     (if n < 10 then [char_of (48 + n)] else str_nat (n div 10) @ [char_of (48 + n mod 10)])"

declare str_nat.simps [simp del]

section \<open>Paths and the file system\<close>

text \<open>
  A \<open>pathlib\<close> path is its anchor and its list of components; two paths are equal when
  these are. \<open>name\<close>, \<open>suffix\<close>, \<open>stem\<close> and \<open>with_name\<close> follow \<open>pathlib\<close>: the suffix
  starts at the last dot of the name, unless that dot is the first or the last character.
\<close>

datatype path = Path (anchor: string) (parts: "string list")

definition path_name :: "path \<Rightarrow> string" where
  "path_name p = (if parts p = [] then [] else last (parts p))"

definition name_suffix :: "string \<Rightarrow> string" where
  "name_suffix nm =
     (let ext = rev (takeWhile (\<lambda>c. c \<noteq> CHR ''.'') (rev nm))
      in case dropWhile (\<lambda>c. c \<noteq> CHR ''.'') (rev nm) of
           [] \<Rightarrow> []
         | d # front \<Rightarrow> if front = [] \<or> ext = [] then [] else d # ext)"

definition path_suffix :: "path \<Rightarrow> string" where
  "path_suffix p = name_suffix (path_name p)"

definition path_stem :: "path \<Rightarrow> string" where
  "path_stem p =
     (let nm = path_name p
      in take (length nm - length (name_suffix nm)) nm)"

datatype ts_bound = BeforeStart | AfterEnd

datatype exists_reason = SameAsInput | AlreadyExists

datatype error =
    TypeError
  | InvalidTimestampError ts_bound
  | FileExistsError exists_reason
  | ValueError
  | NotImplementedError
  | KeyError
  | IndexError
  | AttributeError

definition with_name :: "path \<Rightarrow> string \<Rightarrow> error + path" where
  "with_name p nm =
     (if path_name p = [] then Inl ValueError
      else Inr (Path (anchor p) (butlast (parts p) @ [nm])))"

datatype node = File | Dir "string list"

type_synonym filesystem = "path \<Rightarrow> node option"

definition path_exists :: "filesystem \<Rightarrow> path \<Rightarrow> bool" where
  "path_exists fs p = (fs p \<noteq> None)"

definition is_file :: "filesystem \<Rightarrow> path \<Rightarrow> bool" where
  "is_file fs p = (fs p = Some File)"

definition is_dir :: "filesystem \<Rightarrow> path \<Rightarrow> bool" where
  "is_dir fs p = (case fs p of Some (Dir ns) \<Rightarrow> True | _ \<Rightarrow> False)"

definition glob_db3 :: "filesystem \<Rightarrow> path \<Rightarrow> string list" where
  \<comment> \<open>\<open>path.glob("*.db3")\<close>: the entries of the directory whose name ends in \<open>.db3\<close>\<close>
  "glob_db3 fs p =
     (case fs p of Some (Dir ns) \<Rightarrow> filter (\<lambda>n. suffix ''.db3'' n) ns | _ \<Rightarrow> [])"

definition unlink :: "filesystem \<Rightarrow> path \<Rightarrow> filesystem" where
  "unlink fs p = fs(p := None)"

definition inside :: "path \<Rightarrow> path \<Rightarrow> bool" where
  "inside p q = (anchor q = anchor p \<and> prefix (parts p) (parts q))"

definition rmtree :: "filesystem \<Rightarrow> path \<Rightarrow> filesystem" where
  "rmtree fs p = (\<lambda>q. if inside p q then None else fs q)"

section \<open>The splitter\<close>

record bag_splitter =
  bag_start :: int
  bag_end :: int
  bag_duration :: int
  is_ros1_reader :: "bool option"
  is_ros1_writer :: "bool option"
  inbag :: path

definition get_reader_class :: "bag_splitter \<Rightarrow> path \<Rightarrow> bool \<times> bag_splitter" where
  \<comment> \<open>the class is returned as the flag: \<open>True\<close> for \<open>Reader1\<close>, \<open>False\<close> for \<open>Reader2\<close>\<close>
  "get_reader_class self filename =
     (let is_ros1 = (path_suffix filename = ''.bag'')
      in (is_ros1, self\<lparr>is_ros1_reader := Some is_ros1\<rparr>))"

definition get_writer_class :: "bag_splitter \<Rightarrow> path \<Rightarrow> bool \<times> bag_splitter" where
  "get_writer_class self filename =
     (let is_ros1 = (path_suffix filename = ''.bag'')
      in (is_ros1, self\<lparr>is_ros1_writer := Some is_ros1\<rparr>))"

definition delete_rosbag :: "filesystem \<Rightarrow> path \<Rightarrow> error + filesystem" where
  "delete_rosbag fs p =
     (let is_ros1 = (is_file fs p \<and> path_suffix p = ''.bag'');
          is_ros2 = (is_dir fs p \<and> length (glob_db3 fs p) > 0)
      in if is_ros1 then Inr (unlink fs p)
         else if is_ros2 then Inr (rmtree fs p)
         else Inl ValueError)"

fun check_cutoff_limits :: "bag_splitter \<Rightarrow> pynum list \<Rightarrow> error + unit" where
  "check_cutoff_limits self [] = Inr ()"
| "check_cutoff_limits self (ts # rest) =
     (let time_ns = py_mul ts (PyFloat 1000000000)
      in if py_less (py_add time_ns (PyInt (bag_start self))) (PyInt (bag_start self))
         then Inl (InvalidTimestampError BeforeStart)
         else if py_less (PyInt (bag_end self)) (py_add time_ns (PyInt (bag_start self)))
         then Inl (InvalidTimestampError AfterEnd)
         else check_cutoff_limits self rest)"

definition check_export_path ::
  "bag_splitter \<Rightarrow> filesystem \<Rightarrow> path \<Rightarrow> bool \<Rightarrow> error + filesystem" where
  "check_export_path self fs export_path force_out =
     (if export_path = inbag self then Inl (FileExistsError SameAsInput)
      else if path_exists fs export_path \<and> \<not> force_out then Inl (FileExistsError AlreadyExists)
      else if path_exists fs export_path \<and> force_out then delete_rosbag fs export_path
      else Inr fs)"

section \<open>Connections, readers and writers\<close>

datatype conn_ext =
    ConnectionExtRosbag1 "string option" "int option"
  | ConnectionExtRosbag2 string string

record connection =
  conn_id :: int
  topic :: string
  msgtype :: string
  msgdef :: string
  md5sum :: string
  ext :: conn_ext

type_synonym message = "connection \<times> int \<times> string"

text \<open>
  Modelled from the spec: the opened reader of the log-access library
  (\<open>open_for_read(path)\<close>), of which the splitter uses the channel table and the stream
  of messages \<open>(channel, timestamp, payload)\<close>.
\<close>

record reader =
  connections :: "connection list"
  messages :: "message list"

record bag_writer =
  w_path :: path
  w_ros1 :: bool
  w_open :: bool
  w_connections :: "connection list"
  w_messages :: "message list"

text \<open>
  Modelled from the spec: the writer of the log-access library, which is not part of the
  repository (\<open>open_for_write(path)\<close>, \<open>add_channel\<close> returning the channel the destination
  log assigns, \<open>write\<close>, \<open>close\<close>). Opening creates the log at its path, a file for the
  single-file family and a directory holding a \<open>.db3\<close> file for the other; a new channel
  gets the next free identifier of its log.
\<close>

definition new_writer :: "bool \<Rightarrow> path \<Rightarrow> bag_writer" where
  "new_writer ros1 p =
     \<lparr>w_path = p, w_ros1 = ros1, w_open = False, w_connections = [], w_messages = []\<rparr>"

definition writer_open :: "bag_writer \<Rightarrow> filesystem \<Rightarrow> bag_writer \<times> filesystem" where
  "writer_open w fs =
     (w\<lparr>w_open := True\<rparr>,
      fs(w_path w \<mapsto> (if w_ros1 w then File else Dir [path_name (w_path w) @ ''.db3''])))"

definition writer_close :: "bag_writer \<Rightarrow> bag_writer" where
  "writer_close w = w\<lparr>w_open := False\<rparr>"

definition add_connection ::
  "bag_writer \<Rightarrow> string \<Rightarrow> string \<Rightarrow> string \<Rightarrow> string \<Rightarrow> conn_ext \<Rightarrow> connection \<times> bag_writer" where
  "add_connection w tp mt md m5 ex =
     (let c = \<lparr>conn_id = int (length (w_connections w)), topic = tp, msgtype = mt,
                msgdef = md, md5sum = m5, ext = ex\<rparr>
      in (c, w\<lparr>w_connections := w_connections w @ [c]\<rparr>))"

definition writer_write :: "bag_writer \<Rightarrow> connection \<Rightarrow> int \<Rightarrow> string \<Rightarrow> bag_writer" where
  "writer_write w c t d = w\<lparr>w_messages := w_messages w @ [(c, t, d)]\<rparr>"

definition write_split_topic :: string where
  "write_split_topic = ''/events/write_split''"

type_synonym conn_map = "int \<rightharpoonup> connection"

fun writer_connections_loop ::
  "bag_splitter \<Rightarrow> connection list \<Rightarrow> bag_writer \<Rightarrow> conn_map \<Rightarrow>
     (error \<times> bag_writer) + (bag_writer \<times> conn_map)" where
  "writer_connections_loop self [] w cm = Inr (w, cm)"
| "writer_connections_loop self (conn # rest) w cm =
     (if topic conn = write_split_topic then writer_connections_loop self rest w cm
      else if is_ros1_writer self = Some True then
        (case ext conn of
           ConnectionExtRosbag1 callerid latching \<Rightarrow>
             (let (c, w') = add_connection w (topic conn) (msgtype conn) (msgdef conn)
                              (md5sum conn) (ConnectionExtRosbag1 callerid latching)
              in writer_connections_loop self rest w' (cm(conn_id conn \<mapsto> c)))
         | ConnectionExtRosbag2 sf qos \<Rightarrow> Inl (AttributeError, w))
      else
        (case ext conn of
           ConnectionExtRosbag2 sf qos \<Rightarrow>
             (let (c, w') = add_connection w (topic conn) (msgtype conn) [] []
                              (ConnectionExtRosbag2 sf qos)
              in writer_connections_loop self rest w' (cm(conn_id conn \<mapsto> c)))
         | ConnectionExtRosbag1 callerid latching \<Rightarrow> Inl (AttributeError, w)))"

definition set_writer_connections ::
  "bag_splitter \<Rightarrow> bag_writer \<Rightarrow> connection list \<Rightarrow>
     (error \<times> bag_writer) + (bag_writer \<times> conn_map)" where
  "set_writer_connections self w conns = writer_connections_loop self conns w Map.empty"

section \<open>Splitting\<close>

text \<open>
  What the call leaves behind: the file system and the output logs created so far, oldest
  first. A call that raises leaves the world of that moment.
\<close>

record world =
  files :: filesystem
  logs :: "bag_writer list"

record split_state =
  splitter :: bag_splitter
  st_fs :: filesystem
  closed_logs :: "bag_writer list"
  writer :: bag_writer
  conn_map :: conn_map
  outbag_ctr :: nat
  s_cliptstamp :: int
  e_cliptstamp :: pynum

definition world_of :: "split_state \<Rightarrow> world" where
  "world_of st = \<lparr>files = st_fs st, logs = closed_logs st @ [writer st]\<rparr>"

text \<open>
  \<open>split_rosbag\<close> takes, beside the splitter and its three arguments, the reader that
  opening the input yields and the file system it runs on. Its loop over the messages is
  \<open>split_loop\<close>, one iteration is \<open>split_step\<close>; the values the loop reads but does not
  change are in \<open>split_env\<close>, its local variables in \<open>split_state\<close>. A call returns its
  last state, or the exception raised and the world at that moment.
\<close>

record split_env =
  env_reader :: reader
  env_timestamps :: "pynum list"
  env_base_path :: path
  env_force_out :: bool

definition export_name :: "path \<Rightarrow> nat \<Rightarrow> string" where
  "export_name base_path ctr = path_stem base_path @ str_nat ctr @ path_suffix base_path"

definition split_step ::
  "split_env \<Rightarrow> split_state \<Rightarrow> message \<Rightarrow> (error \<times> world) + split_state" where
  "split_step env st msg =
     (case msg of (conn, timestamp, data) \<Rightarrow>
        if s_cliptstamp st \<le> timestamp \<and> py_le (PyInt timestamp) (e_cliptstamp st) then
          (case conn_map st (conn_id conn) of
             None \<Rightarrow> Inl (KeyError, world_of st)
           | Some c \<Rightarrow> Inr (st\<lparr>writer := writer_write (writer st) c timestamp data\<rparr>))
        else
          (let ctr = outbag_ctr st + 1 in
           case py_index (env_timestamps env) (ctr - 1) IndexError of
             Inl e \<Rightarrow> Inl (e, world_of st)
           | Inr cutoff \<Rightarrow>
          (case with_name (env_base_path env) (export_name (env_base_path env) ctr) of
             Inl e \<Rightarrow> Inl (e, world_of st)
           | Inr export_path \<Rightarrow>
          (case check_export_path (splitter st) (st_fs st) export_path (env_force_out env) of
             Inl e \<Rightarrow> Inl (e, world_of st)
           | Inr fs1 \<Rightarrow>
          (let finished = closed_logs st @ [writer_close (writer st)];
               (Writer, self') = get_writer_class (splitter st) (env_base_path env);
               (w, fs2) = writer_open (new_writer Writer export_path) fs1
           in case set_writer_connections self' w (connections (env_reader env)) of
                Inl (e, w') \<Rightarrow> Inl (e, \<lparr>files = fs2, logs = finished @ [w']\<rparr>)
              | Inr (w', cm) \<Rightarrow>
                  Inr \<lparr>splitter = self', st_fs = fs2, closed_logs = finished, writer = w',
                       conn_map = cm, outbag_ctr = ctr, s_cliptstamp = timestamp,
                       e_cliptstamp = py_add (PyInt (bag_start (splitter st))) cutoff\<rparr>)))))"

fun split_loop ::
  "split_env \<Rightarrow> split_state \<Rightarrow> message list \<Rightarrow> (error \<times> world) + split_state" where
  "split_loop env st [] = Inr st"
| "split_loop env st (msg # rest) =
     (case split_step env st msg of
        Inl e \<Rightarrow> Inl e
      | Inr st' \<Rightarrow> split_loop env st' rest)"

definition split_rosbag ::
  "bag_splitter \<Rightarrow> reader \<Rightarrow> filesystem \<Rightarrow> pynum list option \<Rightarrow> path option \<Rightarrow> bool \<Rightarrow>
     (error \<times> world) + split_state" where
  "split_rosbag self rd fs0 timestamps outbag_path force_out =
     (let w0 = \<lparr>files = fs0, logs = []\<rparr> in
      case timestamps of
        None \<Rightarrow> Inl (TypeError, w0)
      | Some tss \<Rightarrow>
     (case check_cutoff_limits self tss of
        Inl e \<Rightarrow> Inl (e, w0)
      | Inr _ \<Rightarrow>
     (let (Reader, self1) = get_reader_class self (inbag self) in
      case outbag_path of
        None \<Rightarrow> Inl (TypeError, w0)
      | Some base_path \<Rightarrow>
     (case with_name base_path (export_name base_path 1) of
        Inl e \<Rightarrow> Inl (e, w0)
      | Inr export_path \<Rightarrow>
     (case check_export_path self1 fs0 export_path force_out of
        Inl e \<Rightarrow> Inl (e, w0)
      | Inr fs1 \<Rightarrow>
     (let (Writer, self2) = get_writer_class self1 export_path in
      if is_ros1_reader self2 \<noteq> is_ros1_writer self2
      then Inl (NotImplementedError, \<lparr>files = fs1, logs = []\<rparr>)
      else
     (let (w, fs2) = writer_open (new_writer Writer export_path) fs1 in
      case set_writer_connections self2 w (connections rd) of
        Inl (e, w') \<Rightarrow> Inl (e, \<lparr>files = fs2, logs = [w']\<rparr>)
      | Inr (w', cm) \<Rightarrow>
     (let timestamps' = map (\<lambda>ts. py_mul ts (PyFloat 1000000000)) tss @ [PyInt (bag_end self2)] in
      case py_index timestamps' 0 IndexError of
        Inl e \<Rightarrow> Inl (e, \<lparr>files = fs2, logs = [w']\<rparr>)
      | Inr cutoff \<Rightarrow>
     (case split_loop
             \<lparr>env_reader = rd, env_timestamps = timestamps', env_base_path = base_path,
              env_force_out = force_out\<rparr>
             \<lparr>splitter = self2, st_fs = fs2, closed_logs = [], writer = w', conn_map = cm,
              outbag_ctr = 1, s_cliptstamp = bag_start self2,
              e_cliptstamp = py_add (PyInt (bag_start self2)) cutoff\<rparr>
             (messages rd) of
        Inl e \<Rightarrow> Inl e
      | Inr st \<Rightarrow> Inr (st\<lparr>writer := writer_close (writer st)\<rparr>))))))))))"

definition output_logs :: "split_state \<Rightarrow> bag_writer list" where
  "output_logs st = closed_logs st @ [writer st]"

definition segment_path :: "path \<Rightarrow> nat \<Rightarrow> path" where
  \<comment> \<open>the path \<open>with_name\<close> gives to segment \<open>ctr\<close> when the base path has a name\<close>
  "segment_path base_path ctr =
     Path (anchor base_path) (butlast (parts base_path) @ [export_name base_path ctr])"

section \<open>Observations on the outcome of a call\<close>

definition segment_timestamps :: "(error \<times> world) + split_state \<Rightarrow> error + int list list" where
  "segment_timestamps r =
     (case r of
        Inl (e, w) \<Rightarrow> Inl e
      | Inr st \<Rightarrow> Inr (map (\<lambda>w. map (\<lambda>(c, t, d). t) (w_messages w)) (output_logs st)))"


definition final_seg_end :: "(error \<times> world) + split_state \<Rightarrow> error + pynum" where
  "final_seg_end r = (case r of Inl (e, w) \<Rightarrow> Inl e | Inr st \<Rightarrow> Inr (e_cliptstamp st))"


definition same_channel :: "connection \<Rightarrow> connection \<Rightarrow> bool" where
  "same_channel c c' = (topic c' = topic c \<and> msgtype c' = msgtype c \<and> ext c' = ext c)"


definition ext_is_ros1 :: "conn_ext \<Rightarrow> bool" where
  "ext_is_ros1 x = (case x of ConnectionExtRosbag1 ci la \<Rightarrow> True | ConnectionExtRosbag2 sf qos \<Rightarrow> False)"

section \<open>Concrete recordings\<close>

definition imu_conn :: connection where
  "imu_conn = \<lparr>conn_id = 0, topic = ''/imu'', msgtype = ''sensor_msgs/msg/Imu'',
               msgdef = ''def'', md5sum = ''sum'', ext = ConnectionExtRosbag1 None None\<rparr>"

definition ros1_splitter :: "int \<Rightarrow> int \<Rightarrow> bag_splitter" where
  "ros1_splitter t0 t1 =
     \<lparr>bag_start = t0, bag_end = t1, bag_duration = t1 - t0, is_ros1_reader = Some True,
      is_ros1_writer = None, inbag = Path [] [''in.bag'']\<rparr>"

definition ros1_fs :: filesystem where
  "ros1_fs = [Path [] [''in.bag''] \<mapsto> File]"

definition imu_stream :: "int list \<Rightarrow> reader" where
  "imu_stream ts =
     \<lparr>connections = [imu_conn], messages = map (\<lambda>t. (imu_conn, t, ''payload'')) ts\<rparr>"






section \<open>Notions used in the proofs\<close>

definition cut_time :: "bag_splitter \<Rightarrow> pynum \<Rightarrow> pynum" where
  \<comment> \<open>the validator's \<open>time_ns + self._bag_start\<close> for the offset \<open>ts\<close>\<close>
  "cut_time self ts = py_add (py_mul ts (PyFloat 1000000000)) (PyInt (bag_start self))"

definition in_window :: "split_state \<Rightarrow> int \<Rightarrow> bool" where
  "in_window st t = (s_cliptstamp st \<le> t \<and> py_le (PyInt t) (e_cliptstamp st))"



definition start_splitter :: "bag_splitter \<Rightarrow> bag_splitter" where
  "start_splitter self =
     self\<lparr>is_ros1_reader := Some (path_suffix (inbag self) = ''.bag''),
          is_ros1_writer := Some (path_suffix (inbag self) = ''.bag'')\<rparr>"

definition start_writer :: "bag_splitter \<Rightarrow> path \<Rightarrow> bag_writer" where
  "start_writer self base =
     (new_writer (path_suffix (inbag self) = ''.bag'') (segment_path base 1))\<lparr>w_open := True\<rparr>"

definition start_env :: "bag_splitter \<Rightarrow> reader \<Rightarrow> pynum list \<Rightarrow> path \<Rightarrow> bool \<Rightarrow> split_env" where
  "start_env self rd tss base force_out =
     \<lparr>env_reader = rd,
      env_timestamps = map (\<lambda>ts. py_mul ts (PyFloat 1000000000)) tss @ [PyInt (bag_end self)],
      env_base_path = base, env_force_out = force_out\<rparr>"

definition start_state ::
  "bag_splitter \<Rightarrow> pynum list \<Rightarrow> filesystem \<Rightarrow> bag_writer \<Rightarrow> conn_map \<Rightarrow> split_state" where
  "start_state self tss fs2 w cm =
     \<lparr>splitter = start_splitter self, st_fs = fs2, closed_logs = [], writer = w, conn_map = cm,
      outbag_ctr = 1, s_cliptstamp = bag_start self,
      e_cliptstamp = py_add (PyInt (bag_start self))
         (hd (map (\<lambda>ts. py_mul ts (PyFloat 1000000000)) tss @ [PyInt (bag_end self)]))\<rparr>"

section \<open>Checks of the float model\<close>

lemma py_float_tenth: "py_float (1 / 10) = 3602879701896397 / 36028797018963968"
  by code_simp

lemma py_float_tie_to_even:
  "py_float 9007199254740993 = 9007199254740992" "py_float 9007199254740995 = 9007199254740996"
  by code_simp+

lemma py_float_small_int: "py_float 30000000000 = 30000000000"
  by code_simp

section \<open>Names of the segment paths\<close>

lemma name_suffix_dot:
  assumes "stem \<noteq> []" "ex \<noteq> []" "CHR ''.'' \<notin> set ex"
  shows "name_suffix (stem @ CHR ''.'' # ex) = CHR ''.'' # ex"
proof -
  have nd: "\<And>x. x \<in> set (rev ex) \<Longrightarrow> x \<noteq> CHR ''.''"
    using assms(3) by auto
  have tw: "takeWhile (\<lambda>c. c \<noteq> CHR ''.'') (rev ex @ CHR ''.'' # rev stem) = rev ex"
    using takeWhile_append2 [of "rev ex" "\<lambda>c. c \<noteq> CHR ''.''" "CHR ''.'' # rev stem"] nd
    by auto
  have dw: "dropWhile (\<lambda>c. c \<noteq> CHR ''.'') (rev ex @ CHR ''.'' # rev stem) = CHR ''.'' # rev stem"
    using dropWhile_append2 [of "rev ex" "\<lambda>c. c \<noteq> CHR ''.''" "CHR ''.'' # rev stem"] nd
    by auto
  show ?thesis
    using assms(1,2) by (simp add: name_suffix_def tw dw)
qed

lemma name_suffix_cases:
  "name_suffix nm = [] \<or>
   (\<exists>stem ex. nm = stem @ CHR ''.'' # ex \<and> stem \<noteq> [] \<and> ex \<noteq> [] \<and> CHR ''.'' \<notin> set ex
       \<and> name_suffix nm = CHR ''.'' # ex)"
proof (cases "dropWhile (\<lambda>c. c \<noteq> CHR ''.'') (rev nm)")
  case Nil
  show ?thesis unfolding name_suffix_def Let_def Nil by simp
next
  case (Cons d front)
  let ?tw = "takeWhile (\<lambda>c. c \<noteq> CHR ''.'') (rev nm)"
  have d: "d = CHR ''.''"
    using hd_dropWhile [of "\<lambda>c. c \<noteq> CHR ''.''" "rev nm"] Cons by simp
  have "rev nm = ?tw @ d # front"
    using takeWhile_dropWhile_id [of "\<lambda>c. c \<noteq> CHR ''.''" "rev nm"] Cons by simp
  then have "rev (rev nm) = rev (?tw @ d # front)" by simp
  then have nm: "nm = rev front @ CHR ''.'' # rev ?tw" using d by simp
  have nodot: "CHR ''.'' \<notin> set (rev ?tw)"
    using set_takeWhileD [of "CHR ''.''" "\<lambda>c. c \<noteq> CHR ''.''" "rev nm"] by auto
  have ns: "name_suffix nm = (if front = [] \<or> ?tw = [] then [] else CHR ''.'' # rev ?tw)"
    unfolding name_suffix_def Let_def Cons d by simp
  show ?thesis
  proof (cases "front = [] \<or> ?tw = []")
    case True
    then show ?thesis using ns by simp
  next
    case False
    have "nm = rev front @ CHR ''.'' # rev ?tw \<and> rev front \<noteq> [] \<and> rev ?tw \<noteq> []
            \<and> CHR ''.'' \<notin> set (rev ?tw) \<and> name_suffix nm = CHR ''.'' # rev ?tw"
      using nm nodot False ns by simp
    then show ?thesis by blast
  qed
qed

lemma digit_char:
  fixes k :: nat
  assumes k: "k < 10"
  shows "char_of (48 + k) \<noteq> CHR ''.'' \<and> char_of (48 + k) \<noteq> CHR ''g''"
proof -
  have "of_char (char_of (48 + k)) = (48 + k) mod 256" by simp
  also have "\<dots> = 48 + k" using k by simp
  finally have v: "(of_char (char_of (48 + k)) :: nat) = 48 + k" .
  have "char_of (48 + k) \<noteq> CHR ''.''"
  proof
    assume "char_of (48 + k) = CHR ''.''"
    then have "(of_char (char_of (48 + k)) :: nat) = of_char (CHR ''.'')" by simp
    with v show False by simp
  qed
  moreover have "char_of (48 + k) \<noteq> CHR ''g''"
  proof
    assume "char_of (48 + k) = CHR ''g''"
    then have "(of_char (char_of (48 + k)) :: nat) = of_char (CHR ''g'')" by simp
    with v k show False by simp
  qed
  ultimately show ?thesis by simp
qed

lemma str_nat_digits: "str_nat n \<noteq> [] \<and> CHR ''.'' \<notin> set (str_nat n) \<and> last (str_nat n) \<noteq> CHR ''g''"
proof (induction n rule: str_nat.induct)
  case (1 n)
  show ?case
  proof (cases "n < 10")
    case True
    then show ?thesis using digit_char [of n] by (auto simp: str_nat.simps [of n])
  next
    case False
    have "n mod 10 < 10" by simp
    then show ?thesis using False "1.IH" digit_char [of "n mod 10"]
      by (auto simp: str_nat.simps [of n])
  qed
qed

lemma name_suffix_last: "name_suffix nm \<noteq> [] \<Longrightarrow> last (name_suffix nm) = last nm"
  using name_suffix_cases [of nm] by auto

lemma export_name_suffix:
  "(name_suffix (export_name base k) = ''.bag'') = (path_suffix base = ''.bag'')"
proof -
  let ?nm = "path_name base"
  consider (none) "name_suffix ?nm = []"
    | (some) stem ex where "?nm = stem @ CHR ''.'' # ex" "stem \<noteq> []" "ex \<noteq> []"
        "CHR ''.'' \<notin> set ex" "name_suffix ?nm = CHR ''.'' # ex"
    using name_suffix_cases [of ?nm] by blast
  then show ?thesis
  proof cases
    case none
    then have en: "export_name base k = ?nm @ str_nat k"
      by (simp add: export_name_def path_stem_def path_suffix_def)
    have "name_suffix (?nm @ str_nat k) \<noteq> ''.bag''"
    proof
      assume a: "name_suffix (?nm @ str_nat k) = ''.bag''"
      then have "last (name_suffix (?nm @ str_nat k)) = last (?nm @ str_nat k)"
        using name_suffix_last [of "?nm @ str_nat k"] by simp
      then have "CHR ''g'' = last (str_nat k)"
        using a str_nat_digits [of k] by simp
      then show False using str_nat_digits [of k] by simp
    qed
    then show ?thesis using none en by (simp add: path_suffix_def)
  next
    case some
    then have "export_name base k = (stem @ str_nat k) @ CHR ''.'' # ex"
      by (simp add: export_name_def path_stem_def path_suffix_def)
    then have "name_suffix (export_name base k) = CHR ''.'' # ex"
      using name_suffix_dot [of "stem @ str_nat k" ex] some by simp
    then show ?thesis using some by (simp add: path_suffix_def)
  qed
qed

lemma segment_path_suffix:
  "(path_suffix (segment_path base k) = ''.bag'') = (path_suffix base = ''.bag'')"
proof -
  have "path_name (segment_path base k) = export_name base k"
    by (simp add: segment_path_def path_name_def)
  then have "path_suffix (segment_path base k) = name_suffix (export_name base k)"
    by (simp add: path_suffix_def)
  then show ?thesis using export_name_suffix [of base k] by simp
qed

lemma with_name_segment:
  "with_name base (export_name base k) =
     (if path_name base = [] then Inl ValueError else Inr (segment_path base k))"
  by (simp add: with_name_def segment_path_def)

lemma str_nat_1: "str_nat 1 = ''1''"
  by code_simp

lemma seg1: "segment_path (Path [] [''out'']) 1 = Path [] [''out1'']"
  by (simp add: segment_path_def export_name_def path_stem_def path_suffix_def path_name_def
        name_suffix_def str_nat_1 del: One_nat_def)

section \<open>The routing map of one output log\<close>

lemma wcl_skip:
  "topic conn = write_split_topic \<Longrightarrow>
   writer_connections_loop self (conn # rest) w cm = writer_connections_loop self rest w cm"
  by simp

lemma wcl_copy:
  assumes "topic conn \<noteq> write_split_topic"
  shows "(ext_is_ros1 (ext conn) \<noteq> (is_ros1_writer self = Some True)
            \<and> writer_connections_loop self (conn # rest) w cm = Inl (AttributeError, w))
       \<or> (ext_is_ros1 (ext conn) = (is_ros1_writer self = Some True)
            \<and> (\<exists>c. same_channel conn c
                 \<and> writer_connections_loop self (conn # rest) w cm =
                     writer_connections_loop self rest
                       (w\<lparr>w_connections := w_connections w @ [c]\<rparr>) (cm(conn_id conn \<mapsto> c))))"
proof -
  let ?c1 = "\<lparr>conn_id = int (length (w_connections w)), topic = topic conn,
              msgtype = msgtype conn, msgdef = msgdef conn, md5sum = md5sum conn,
              ext = ext conn\<rparr>"
  let ?c2 = "\<lparr>conn_id = int (length (w_connections w)), topic = topic conn,
              msgtype = msgtype conn, msgdef = [], md5sum = [], ext = ext conn\<rparr>"
  let ?go = "\<lambda>c. writer_connections_loop self rest
                  (w\<lparr>w_connections := w_connections w @ [c]\<rparr>) (cm(conn_id conn \<mapsto> c))"
  have ch: "same_channel conn ?c1" "same_channel conn ?c2"
    by (simp_all add: same_channel_def)
  show ?thesis
  proof (cases "ext conn")
    case (ConnectionExtRosbag1 ci la)
    show ?thesis
    proof (cases "is_ros1_writer self = Some True")
      case True
      then have "writer_connections_loop self (conn # rest) w cm = ?go ?c1"
        using assms ConnectionExtRosbag1 by (simp add: add_connection_def Let_def)
      with ch(1) True ConnectionExtRosbag1 show ?thesis
        by (auto simp: ext_is_ros1_def)
    next
      case False
      then show ?thesis using assms ConnectionExtRosbag1
        by (simp add: ext_is_ros1_def)
    qed
  next
    case (ConnectionExtRosbag2 sf qos)
    show ?thesis
    proof (cases "is_ros1_writer self = Some True")
      case True
      then show ?thesis using assms ConnectionExtRosbag2
        by (simp add: ext_is_ros1_def)
    next
      case False
      then have "writer_connections_loop self (conn # rest) w cm = ?go ?c2"
        using assms ConnectionExtRosbag2 by (simp add: add_connection_def Let_def)
      with ch(2) False ConnectionExtRosbag2 show ?thesis
        by (auto simp: ext_is_ros1_def)
    qed
  qed
qed

declare writer_connections_loop.simps(2) [simp del]

lemma wcl_frame:
  "writer_connections_loop self conns w cm = Inr (w', cm') \<Longrightarrow>
     w_path w' = w_path w \<and> w_ros1 w' = w_ros1 w \<and> w_open w' = w_open w
     \<and> w_messages w' = w_messages w"
proof (induction conns arbitrary: w cm)
  case Nil
  then show ?case by simp
next
  case (Cons conn rest)
  show ?case
  proof (cases "topic conn = write_split_topic")
    case True
    with Cons show ?thesis by (simp add: wcl_skip)
  next
    case False
    from wcl_copy [OF False, of self rest w cm] Cons.prems obtain c where
      step: "writer_connections_loop self rest (w\<lparr>w_connections := w_connections w @ [c]\<rparr>)
               (cm(conn_id conn \<mapsto> c)) = Inr (w', cm')"
      by auto
    from Cons.IH [OF step] show ?thesis by simp
  qed
qed


lemma wcl_table:
  "writer_connections_loop self conns w cm = Inr (w', cm') \<Longrightarrow>
     \<exists>new. w_connections w' = w_connections w @ new
       \<and> map topic new = filter (\<lambda>t. t \<noteq> write_split_topic) (map topic conns)
       \<and> (\<forall>i c. cm' i = Some c \<longrightarrow> cm i = Some c \<or> c \<in> set new)"
proof (induction conns arbitrary: w cm)
  case Nil
  then show ?case by simp
next
  case (Cons conn rest)
  show ?case
  proof (cases "topic conn = write_split_topic")
    case True
    with Cons show ?thesis by (simp add: wcl_skip)
  next
    case False
    from wcl_copy [OF False, of self rest w cm] Cons.prems obtain c where
      c: "same_channel conn c"
      and step: "writer_connections_loop self rest (w\<lparr>w_connections := w_connections w @ [c]\<rparr>)
               (cm(conn_id conn \<mapsto> c)) = Inr (w', cm')"
      by auto
    from Cons.IH [OF step] obtain new where
      new: "w_connections w' = (w_connections w @ [c]) @ new"
        "map topic new = filter (\<lambda>t. t \<noteq> write_split_topic) (map topic rest)"
        "\<forall>i d. cm' i = Some d \<longrightarrow> (cm(conn_id conn \<mapsto> c)) i = Some d \<or> d \<in> set new"
      by auto
    have "w_connections w' = w_connections w @ (c # new)"
      using new(1) by simp
    moreover have "map topic (c # new) = filter (\<lambda>t. t \<noteq> write_split_topic) (map topic (conn # rest))"
      using new(2) c False by (simp add: same_channel_def)
    moreover have "\<forall>i d. cm' i = Some d \<longrightarrow> cm i = Some d \<or> d \<in> set (c # new)"
    proof (intro allI impI)
      fix i d assume "cm' i = Some d"
      with new(3) have "(cm(conn_id conn \<mapsto> c)) i = Some d \<or> d \<in> set new" by blast
      then show "cm i = Some d \<or> d \<in> set (c # new)"
        by (cases "i = conn_id conn") auto
    qed
    ultimately show ?thesis by blast
  qed
qed

lemma wcl_dom:
  "writer_connections_loop self conns w cm = Inr (w', cm') \<Longrightarrow>
     dom cm' = dom cm \<union> conn_id ` {c \<in> set conns. topic c \<noteq> write_split_topic}"
proof (induction conns arbitrary: w cm)
  case Nil
  then show ?case by simp
next
  case (Cons conn rest)
  show ?case
  proof (cases "topic conn = write_split_topic")
    case True
    have "{c \<in> set (conn # rest). topic c \<noteq> write_split_topic}
            = {c \<in> set rest. topic c \<noteq> write_split_topic}"
      using True by auto
    with Cons True show ?thesis by (simp add: wcl_skip)
  next
    case False
    from wcl_copy [OF False, of self rest w cm] Cons.prems obtain c where
      step: "writer_connections_loop self rest (w\<lparr>w_connections := w_connections w @ [c]\<rparr>)
               (cm(conn_id conn \<mapsto> c)) = Inr (w', cm')"
      by auto
    have d1: "dom cm' = dom (cm(conn_id conn \<mapsto> c))
                 \<union> conn_id ` {c \<in> set rest. topic c \<noteq> write_split_topic}"
      by (rule Cons.IH [OF step])
    have d2: "dom (cm(conn_id conn \<mapsto> c)) = insert (conn_id conn) (dom cm)"
      by simp
    have d3: "conn_id ` {c \<in> set (conn # rest). topic c \<noteq> write_split_topic}
            = insert (conn_id conn) (conn_id ` {c \<in> set rest. topic c \<noteq> write_split_topic})"
      using False by auto
    show ?thesis unfolding d1 d2 d3 by blast
  qed
qed





section \<open>One step of the partitioner\<close>


lemma split_step_rotate:
  assumes "\<not> in_window st t" and "split_step env st (c, t, d) = Inr st'"
  shows "outbag_ctr st < length (env_timestamps env)
     \<and> outbag_ctr st' = outbag_ctr st + 1
     \<and> closed_logs st' = closed_logs st @ [writer_close (writer st)]
     \<and> s_cliptstamp st' = t
     \<and> e_cliptstamp st' =
         py_add (PyInt (bag_start (splitter st))) (env_timestamps env ! outbag_ctr st)
     \<and> splitter st' =
         (splitter st)\<lparr>is_ros1_writer := Some (path_suffix (env_base_path env) = ''.bag'')\<rparr>
     \<and> (\<exists>fs1. check_export_path (splitter st) (st_fs st)
                 (segment_path (env_base_path env) (outbag_ctr st + 1)) (env_force_out env) = Inr fs1
           \<and> st_fs st' = snd (writer_open (new_writer (path_suffix (env_base_path env) = ''.bag'')
                                 (segment_path (env_base_path env) (outbag_ctr st + 1))) fs1)
           \<and> set_writer_connections (splitter st')
                (fst (writer_open (new_writer (path_suffix (env_base_path env) = ''.bag'')
                                 (segment_path (env_base_path env) (outbag_ctr st + 1))) fs1))
                (connections (env_reader env)) = Inr (writer st', conn_map st'))"
  using assms
  by (auto simp: split_step_def in_window_def Let_def py_index_def with_name_segment
        get_writer_class_def writer_open_def
      split: sum.splits prod.splits if_splits)



lemma swc_fresh:
  assumes "set_writer_connections self (fst (writer_open (new_writer b p) fs1)) conns = Inr (w', cm)"
  shows "map topic (w_connections w') = filter (\<lambda>t. t \<noteq> write_split_topic) (map topic conns)"
    and "dom cm = conn_id ` {c \<in> set conns. topic c \<noteq> write_split_topic}"
    and "\<forall>i c. cm i = Some c \<longrightarrow> c \<in> set (w_connections w')"
    and "w_path w' = p" and "w_messages w' = []"
proof -
  let ?w0 = "fst (writer_open (new_writer b p) fs1)"
  have w0: "w_connections ?w0 = []" "w_path ?w0 = p" "w_messages ?w0 = []"
    by (simp_all add: writer_open_def new_writer_def)
  have run: "writer_connections_loop self conns ?w0 Map.empty = Inr (w', cm)"
    using assms by (simp add: set_writer_connections_def)
  from wcl_table [OF run] w0(1) obtain new where
    new: "w_connections w' = new"
      "map topic new = filter (\<lambda>t. t \<noteq> write_split_topic) (map topic conns)"
      "\<forall>i c. cm i = Some c \<longrightarrow> c \<in> set new"
    by auto
  from new show "map topic (w_connections w') = filter (\<lambda>t. t \<noteq> write_split_topic) (map topic conns)"
    by simp
  from new show "\<forall>i c. cm i = Some c \<longrightarrow> c \<in> set (w_connections w')" by simp
  from wcl_dom [OF run] show "dom cm = conn_id ` {c \<in> set conns. topic c \<noteq> write_split_topic}"
    by simp
  from wcl_frame [OF run] w0 show "w_path w' = p" "w_messages w' = []" by simp_all
qed


lemma split_step_rotation_drops:
  assumes "\<not> in_window st t" and "split_step env st (c, t, d) = Inr st'"
  shows "map w_messages (output_logs st') = map w_messages (output_logs st) @ [ [] ]"
proof -
  from split_step_rotate [OF assms] obtain fs1 where
    cl: "closed_logs st' = closed_logs st @ [writer_close (writer st)]"
    and sw: "set_writer_connections (splitter st')
                (fst (writer_open (new_writer (path_suffix (env_base_path env) = ''.bag'')
                                 (segment_path (env_base_path env) (outbag_ctr st + 1))) fs1))
                (connections (env_reader env)) = Inr (writer st', conn_map st')"
    by blast
  from swc_fresh(5) [OF sw] cl show ?thesis
    by (simp add: output_logs_def writer_close_def)
qed





section \<open>The run of a call\<close>

lemma check_export_path_reader_flag [simp]:
  "check_export_path (self\<lparr>is_ros1_reader := x\<rparr>) fs p f = check_export_path self fs p f"
  by (simp add: check_export_path_def)

lemma split_rosbag_unfold:
  "split_rosbag self rd fs0 (Some tss) (Some base) force_out =
     (case check_cutoff_limits self tss of
        Inl e \<Rightarrow> Inl (e, \<lparr>files = fs0, logs = []\<rparr>)
      | Inr u \<Rightarrow>
        if path_name base = [] then Inl (ValueError, \<lparr>files = fs0, logs = []\<rparr>)
        else
         (case check_export_path self fs0 (segment_path base 1) force_out of
            Inl e \<Rightarrow> Inl (e, \<lparr>files = fs0, logs = []\<rparr>)
          | Inr fs1 \<Rightarrow>
            if (path_suffix (inbag self) = ''.bag'') \<noteq> (path_suffix base = ''.bag'')
            then Inl (NotImplementedError, \<lparr>files = fs1, logs = []\<rparr>)
            else
             (case set_writer_connections (start_splitter self) (start_writer self base)
                     (connections rd) of
                Inl (e, w') \<Rightarrow>
                  Inl (e, \<lparr>files = snd (writer_open (new_writer (path_suffix (inbag self) = ''.bag'')
                                       (segment_path base 1)) fs1), logs = [w']\<rparr>)
              | Inr (w', cm) \<Rightarrow>
                 (case split_loop (start_env self rd tss base force_out)
                         (start_state self tss
                            (snd (writer_open (new_writer (path_suffix (inbag self) = ''.bag'')
                                       (segment_path base 1)) fs1)) w' cm)
                         (messages rd) of
                    Inl e \<Rightarrow> Inl e
                  | Inr st \<Rightarrow> Inr (st\<lparr>writer := writer_close (writer st)\<rparr>)))))"
proof -
  have idx: "py_index (map (\<lambda>ts. py_mul ts (PyFloat 1000000000)) tss @ [PyInt (bag_end self)]) 0
               IndexError
             = Inr (hd (map (\<lambda>ts. py_mul ts (PyFloat 1000000000)) tss @ [PyInt (bag_end self)]))"
    by (cases tss) (simp_all add: py_index_def)
  show ?thesis
    using segment_path_suffix [of base 1]
    by (simp add: split_rosbag_def Let_def with_name_segment get_reader_class_def
          get_writer_class_def idx start_splitter_def start_writer_def start_env_def
          start_state_def writer_open_def new_writer_def
        del: py_mul.simps py_add.simps One_nat_def
        split: sum.splits prod.splits)
qed









section \<open>The cutpoint validator\<close>

text \<open>
  The validator accepts a list exactly when every computed time \<open>ts * 1e9 + start\<close>, a
  float, lies between the start and the end of the bag, bounds included.
\<close>

lemma check_cutoff_limits_accepts:
  "(check_cutoff_limits self tss = Inr ()) =
     (\<forall>ts \<in> set tss. py_le (PyInt (bag_start self)) (cut_time self ts)
                     \<and> py_le (cut_time self ts) (PyInt (bag_end self)))"
  by (induction tss) (auto simp: Let_def cut_time_def py_less_def py_le_def not_less
        simp del: py_mul.simps py_add.simps)

text \<open>
  C4. The validator is meant to accept an offset of exactly 0 and one of exactly the
  duration. The sum \<open>ts * 1e9 + start\<close> is a float, and a start of 1700000000000000001 ns
  is not one: it is rounded down to 1.7e18, which is less than the start, so the offset 0
  is rejected as lying before the start of the bag. With the start 1700000000000000255 ns
  and a duration of 100 s the sum for the offset 100 is rounded up past the end of the
  bag, and the offset is rejected as lying after it.
\<close>

theorem check_cutoff_limits_rejects_boundary_offsets:
  "check_cutoff_limits (ros1_splitter 1700000000000000001 1700000100000000001) [PyInt 0]
     = Inl (InvalidTimestampError BeforeStart)
   \<and> check_cutoff_limits (ros1_splitter 1700000000000000255 1700000100000000255) [PyInt 100]
     = Inl (InvalidTimestampError AfterEnd)"
  by code_simp

text \<open>
  C10. Called without timestamps, \<open>split_rosbag\<close> raises a type error when the validator
  iterates over \<open>None\<close>; the file system is as before and no output log exists.
\<close>

theorem split_rosbag_without_timestamps:
  "split_rosbag self rd fs0 None outbag_path force_out = Inl (TypeError, \<lparr>files = fs0, logs = []\<rparr>)"
  by (simp add: split_rosbag_def)

section \<open>Preparing an output path\<close>



section \<open>Runs of the splitter on concrete recordings\<close>

text \<open>
  C1. A recording of 10 s with the cutpoint 5 s and messages at 0, 4, 6 and 10 s. The
  message at 6 s crosses the boundary: the splitter rotates to the second log and goes on
  with the next message, so the message at 6 s is in no output segment (in every run, a
  step that rotates adds an empty log and writes nothing: \<open>split_step_rotation_drops\<close>).
\<close>

theorem split_rosbag_loses_crossing_message:
  "segment_timestamps
     (split_rosbag (ros1_splitter 0 10000000000)
        (imu_stream [0, 4000000000, 6000000000, 10000000000])
        ros1_fs (Some [PyInt 5]) (Some (Path [] [''out.bag''])) False)
     = Inr [ [0, 4000000000], [10000000000]]"
  by code_simp


text \<open>
  C3. A recording from 1 s to 5 s split at no cutpoint. The sentinel appended to the
  offsets is the absolute end of the bag, and the start of the bag is added to it as to
  every offset: the upper bound of the last segment is 6 s, not the end of the recording.
\<close>

theorem split_rosbag_sentinel_bound:
  "final_seg_end
     (split_rosbag (ros1_splitter 1000000000 5000000000) (imu_stream [1000000000, 5000000000])
        ros1_fs (Some []) (Some (Path [] [''out.bag''])) False)
     = Inr (PyInt 6000000000)"
  by code_simp

text \<open>
  C5. The recording of the scenario: 100 s, cutpoints 30 s and 70 s, messages at 0 s, 30 s,
  30.0001 s and 100 s. The message at 30 s is in the first segment. The message at
  30.0001 s triggers the rotation and is written nowhere: the second segment is empty.
\<close>

theorem split_rosbag_boundary_scenario:
  "segment_timestamps
     (split_rosbag (ros1_splitter 0 100000000000)
        (imu_stream [0, 30000000000, 30000100000, 100000000000])
        ros1_fs (Some [PyInt 30, PyInt 70]) (Some (Path [] [''out.bag''])) False)
     = Inr [ [0, 30000000000], [], []]"
  by code_simp


section \<open>Properties of every run\<close>





text \<open>
  C7. When the family of the input path and the family of the requested output path
  differ, every call fails and no output log has been opened, so no message has been
  written. The checks that the code runs earlier fail first when they fail; when the
  cutpoints are accepted and the first segment path has been prepared, the error is the
  unsupported conversion, and the file system is as the preparation left it.
\<close>

theorem split_rosbag_cross_family:
  assumes "(path_suffix (inbag self) = ''.bag'') \<noteq> (path_suffix base = ''.bag'')"
  shows "\<exists>e w. split_rosbag self rd fs0 timestamps (Some base) force_out = Inl (e, w)
           \<and> logs w = []
           \<and> (\<forall>tss fs1. timestamps = Some tss \<and> check_cutoff_limits self tss = Inr ()
                  \<and> path_name base \<noteq> []
                  \<and> check_export_path self fs0 (segment_path base 1) force_out = Inr fs1
                \<longrightarrow> e = NotImplementedError \<and> files w = fs1)"
proof (cases timestamps)
  case None
  then show ?thesis by (simp add: split_rosbag_def)
next
  case (Some tss)
  show ?thesis
  proof (cases "check_cutoff_limits self tss")
    case (Inl e)
    then show ?thesis unfolding Some split_rosbag_unfold by simp
  next
    case (Inr u)
    note lim = this
    show ?thesis
    proof (cases "path_name base = []")
      case True
      then show ?thesis unfolding Some split_rosbag_unfold using lim by simp
    next
      case False
      show ?thesis
      proof (cases "check_export_path self fs0 (segment_path base 1) force_out")
        case (Inl e)
        then show ?thesis unfolding Some split_rosbag_unfold using lim False by simp
      next
        case (Inr fs1)
        then show ?thesis unfolding Some split_rosbag_unfold using lim False assms by auto
      qed
    qed
  qed
qed

text \<open>
  Witness for C7: a \<open>.bag\<close> input and an output path without suffix.
\<close>

theorem split_rosbag_cross_family_witness:
  "\<exists>e w. split_rosbag (ros1_splitter 0 10) (imu_stream [0, 10]) ros1_fs (Some [])
            (Some (Path [] [''out''])) False = Inl (e, w)
     \<and> logs w = [] \<and> e = NotImplementedError \<and> files w = ros1_fs"
proof -
  have sfx: "path_suffix (Path [] [''in.bag'']) = ''.bag''" "path_suffix (Path [] [''out'']) = []"
    by (simp_all add: path_suffix_def path_name_def name_suffix_def)
  have fam: "(path_suffix (inbag (ros1_splitter 0 10)) = ''.bag'')
               \<noteq> (path_suffix (Path [] [''out'']) = ''.bag'')"
    by (simp add: ros1_splitter_def sfx)
  have pre: "check_cutoff_limits (ros1_splitter 0 10) [] = Inr ()"
    "path_name (Path [] [''out'']) \<noteq> []"
    "check_export_path (ros1_splitter 0 10) ros1_fs (segment_path (Path [] [''out'']) 1) False
       = Inr ros1_fs"
    by (simp_all add: path_name_def seg1 check_export_path_def ros1_splitter_def path_exists_def
          ros1_fs_def del: One_nat_def)
  from split_rosbag_cross_family [OF fam, of "imu_stream [0, 10]" ros1_fs "Some []" False] pre
  show ?thesis by blast
qed



end
